theory Spec2Isabelle
  imports Main
begin

section \<open>Data model of multirepr_indexing.py\<close>

text \<open>
  The script drives external collaborators (directory listing, the partitioning engine,
  the summary chain, the JSON serializer, the Chroma vector store and the retrieval
  chain) and one SQLite table. Exceptions are values of \<open>error\<close>; a call that may raise returns
  \<open>error + 'a\<close> with \<open>Inl\<close> for the exception.
\<close>

datatype error =
    IntegrityError      \<comment> \<open>sqlite3: UNIQUE constraint failed: documents.id\<close>
  | OperationalError    \<comment> \<open>sqlite3: no such table: documents\<close>
  | ProgrammingError    \<comment> \<open>sqlite3: Cannot operate on a closed database\<close>
  | OverflowError       \<comment> \<open>Python int too large to convert to SQLite INTEGER\<close>
  | TypeError           \<comment> \<open>\<open>len\<close> or \<open>enumerate\<close> of \<open>None\<close>\<close>
  | KeyError            \<comment> \<open>\<open>img['path']\<close> on a dict without that key\<close>
  | External string     \<comment> \<open>any exception raised by an external collaborator\<close>

text \<open>Values stored in the metadata dict built on lines 69-75.\<close>

datatype pyval =
    PyNone
  | PyStr string
  | PyInt int
  | PyDict "(int \<times> string) list"

type_synonym metadata = "(string \<times> pyval) list"

text \<open>
  An element returned by \<open>partition\<close>: \<open>doc.text\<close> and the dict \<open>doc.metadata\<close>, of
  which the script reads the keys \<open>page_number\<close> and \<open>images\<close>. For both fields \<open>None\<close>
  is an absent key and \<open>Some v\<close> a key present with the value \<open>v\<close>: the page number may
  be any value, \<open>PyNone\<close> included, and the value of \<open>images\<close> is Python's \<open>None\<close>
  (\<open>NoImages\<close>) or a list of dicts, one per image.
\<close>

type_synonym image = "(string \<times> string) list"

datatype images_value =
    NoImages
  | Images "image list"

record element_metadata =
  page_number :: "pyval option"
  images :: "images_value option"

record element =
  el_text :: string
  el_metadata :: element_metadata

text \<open>The dict handed to \<open>add_documents\<close> on line 46: text and metadata id.\<close>

record summary_doc =
  sd_text :: string
  sd_id :: int

text \<open>Rows \<open>(id, metadata)\<close> of table \<open>documents\<close>, in insertion order.\<close>

type_synonym table = "(int \<times> string) list"

text \<open>A connection is identified by the database file it was opened on.\<close>

type_synonym conn = string

text \<open>A Chroma handle: persist directory and collection name.\<close>

type_synonym chroma = "string \<times> string"

datatype log_record =
    InfoDocumentAdded int
  | ErrorAddingDocument int error
  | InfoSummaryAdded int
  | ErrorAddingSummary int error
  | InfoQueryResult string

text \<open>
  The state the script acts on: the committed content of the SQLite files (\<open>None\<close>: the
  file holds no table \<open>documents\<close>), the rows inserted and not yet committed by the
  connection in use on each file, the persisted vector collections, the connections
  currently open and the log written so far. Each function of the script works on the
  connection it opened itself, so one open transaction per file is kept.
\<close>

record world =
  databases :: "string \<Rightarrow> table option"
  pending :: "string \<Rightarrow> table"
  collections :: "chroma \<Rightarrow> summary_doc list"
  open_conns :: "conn list"
  log :: "log_record list"

text \<open>
  The external collaborators. Each is a function of its arguments only; any of them may
  raise. \<open>add_documents_fault\<close> is the exception, if any, that embedding and storing one
  entry raises inside \<open>add_documents\<close>; without one the entry is appended to the
  collection (section 4.2 of the specification). \<open>commit_fault\<close> is the exception, if any,
  that \<open>conn.commit()\<close> raises on line 38 in the call for that id and serialized
  metadata (a locked database, a full disk).
\<close>

record env =
  listdir :: "string \<Rightarrow> error + string list"
  partition_auto :: "string \<Rightarrow> error + element list"
  summary_chain_run :: "string \<Rightarrow> error + string"
  json_dumps :: "metadata \<Rightarrow> error + string"
  add_documents_fault :: "summary_doc \<Rightarrow> error option"
  commit_fault :: "int \<Rightarrow> string \<Rightarrow> error option"
  retrieval_chain_run :: "summary_doc list \<Rightarrow> table option \<Rightarrow> string \<Rightarrow> error + string"

section \<open>Helpers from the Python library\<close>

text \<open>\<open>enumerate(xs, start)\<close>.\<close>

fun enumerate_from :: "int \<Rightarrow> 'a list \<Rightarrow> (int \<times> 'a) list" where
  "enumerate_from i [] = []"
| "enumerate_from i (x # xs) = (i, x) # enumerate_from (i + 1) xs"

text \<open>\<open>d.get(key, default)\<close> on an optional key.\<close>

definition dict_get :: "'a option \<Rightarrow> 'a \<Rightarrow> 'a" where
  "dict_get v d = (case v of None \<Rightarrow> d | Some x \<Rightarrow> x)"

text \<open>\<open>os.path.join(a, b)\<close> of posixpath, for two components.\<close>

definition path_join :: "string \<Rightarrow> string \<Rightarrow> string" where
  "path_join a b =
     (if b \<noteq> [] \<and> hd b = CHR ''/'' then b
      else if a = [] \<or> last a = CHR ''/'' then a @ b
      else a @ ''/'' @ b)"

section \<open>Record store (lines 17-41)\<close>

definition default_db_name :: string where
  "default_db_name = ''documents.db''"

text \<open>
  \<open>sqlite3.connect(db_name)\<close>: a new open connection on that file, with no open
  transaction. Rows left uncommitted by an older connection that was never closed can no
  longer be committed by the script, which keeps no handle on it.
\<close>

definition connect_db :: "string \<Rightarrow> world \<Rightarrow> conn \<times> world" where
  "connect_db db_name w =
     (db_name, w\<lparr>open_conns := db_name # open_conns w,
                  pending := (pending w)(db_name := [])\<rparr>)"

text \<open>\<open>conn.close()\<close>: uncommitted rows are rolled back.\<close>

definition close_conn :: "conn \<Rightarrow> world \<Rightarrow> world" where
  "close_conn c w =
     w\<lparr>open_conns := remove1 c (open_conns w), pending := (pending w)(c := [])\<rparr>"

text \<open>\<open>conn.commit()\<close> without a failure: the rows of the open transaction become durable.\<close>

definition commit_pending :: "conn \<Rightarrow> world \<Rightarrow> world" where
  "commit_pending c w =
     (case databases w c of
        None \<Rightarrow> w
      | Some rows \<Rightarrow>
          w\<lparr>databases := (databases w)(c := Some (rows @ pending w c)),
             pending := (pending w)(c := [])\<rparr>)"

text \<open>
  \<open>create_table\<close> (lines 21-29):
  \<open>CREATE TABLE IF NOT EXISTS documents (id INTEGER PRIMARY KEY, metadata TEXT)\<close>, then
  \<open>conn.commit()\<close>.
\<close>

definition create_table :: "conn \<Rightarrow> world \<Rightarrow> world" where
  "create_table c w =
     commit_pending c
       (case databases w c of
          None \<Rightarrow> w\<lparr>databases := (databases w)(c := Some [])\<rparr>
        | Some t \<Rightarrow> w)"

text \<open>The range of an SQLite \<open>INTEGER\<close>: signed 64 bits.\<close>

definition sqlite_integer :: "int \<Rightarrow> bool" where
  "sqlite_integer i = (- (2 ^ 63) \<le> i \<and> i < 2 ^ 63)"

text \<open>
  \<open>cursor.execute('INSERT INTO documents (id, metadata) VALUES (?, ?)', ...)\<close> on line 36:
  a plain insert into the open transaction. The statement is refused when the table is
  missing, when the id does not fit an SQLite integer, and when a row with that primary
  key is visible to the connection, committed or not. A refused statement changes
  nothing.
\<close>

definition insert_row :: "conn \<Rightarrow> int \<Rightarrow> string \<Rightarrow> world \<Rightarrow> error + world" where
  "insert_row c doc_id metadata_json w =
     (case databases w c of
        None \<Rightarrow> Inl OperationalError
      | Some rows \<Rightarrow>
          if \<not> sqlite_integer doc_id then Inl OverflowError
          else if doc_id \<in> set (map fst (rows @ pending w c)) then Inl IntegrityError
          else Inr (w\<lparr>pending := (pending w)(c := pending w c @ [(doc_id, metadata_json)])\<rparr>))"

text \<open>\<open>conn.commit()\<close> on line 38: it raises, and leaves the transaction open, or commits.\<close>

definition commit :: "env \<Rightarrow> conn \<Rightarrow> int \<Rightarrow> string \<Rightarrow> world \<Rightarrow> error + world" where
  "commit env c doc_id metadata_json w =
     (case commit_fault env doc_id metadata_json of
        Some e \<Rightarrow> Inl e
      | None \<Rightarrow> Inr (commit_pending c w))"

text \<open>
  The body of the \<open>try\<close> block of \<open>add_document\<close> (lines 34-39), statement by statement:
  \<open>conn.cursor()\<close>, which raises on a closed connection, \<open>json.dumps\<close>, the insert, the
  commit and the log record. An exception is returned with the state reached when it
  was raised.
\<close>

definition add_document_try ::
  "env \<Rightarrow> conn \<Rightarrow> int \<Rightarrow> metadata \<Rightarrow> world \<Rightarrow> (error + unit) \<times> world" where
  "add_document_try env c doc_id md w =
     (if c \<notin> set (open_conns w) then (Inl ProgrammingError, w)
      else case json_dumps env md of
        Inl e \<Rightarrow> (Inl e, w)
      | Inr metadata_json \<Rightarrow>
          (case insert_row c doc_id metadata_json w of
             Inl e \<Rightarrow> (Inl e, w)
           | Inr w1 \<Rightarrow>
               (case commit env c doc_id metadata_json w1 of
                  Inl e \<Rightarrow> (Inl e, w1)
                | Inr w2 \<Rightarrow> (Inr (), w2\<lparr>log := log w2 @ [InfoDocumentAdded doc_id]\<rparr>))))"

text \<open>
  \<open>add_document\<close>: the \<open>try\<close> block, and the handler \<open>except Exception\<close>, which logs the
  exception and does nothing else (no rollback). The first component is what the call
  hands to its caller: \<open>Inr ()\<close> for a normal return, \<open>Inl e\<close> for an exception that leaves
  the function.
\<close>

definition add_document ::
  "env \<Rightarrow> conn \<Rightarrow> int \<Rightarrow> metadata \<Rightarrow> world \<Rightarrow> (error + unit) \<times> world" where
  "add_document env c doc_id md w =
     (case add_document_try env c doc_id md w of
        (Inr u, w') \<Rightarrow> (Inr (), w')
      | (Inl e, w') \<Rightarrow> (Inr (), w'\<lparr>log := log w' @ [ErrorAddingDocument doc_id e]\<rparr>))"

text \<open>The committed metadata of an id in a database file.\<close>

definition stored :: "world \<Rightarrow> string \<Rightarrow> int \<Rightarrow> string option" where
  "stored w db doc_id = (case databases w db of None \<Rightarrow> None | Some rows \<Rightarrow> map_of rows doc_id)"

text \<open>Number of committed rows of table \<open>documents\<close> of a database file.\<close>

definition row_count :: "world \<Rightarrow> string \<Rightarrow> nat" where
  "row_count w db = (case databases w db of None \<Rightarrow> 0 | Some rows \<Rightarrow> length rows)"

section \<open>Summary index (lines 43-49)\<close>

text \<open>
  The body of the \<open>try\<close> block of \<open>add_summary\<close> (lines 46-47): \<open>add_documents\<close>, which
  stores the entry or raises and stores nothing, and the log record.
\<close>

definition add_summary_try ::
  "env \<Rightarrow> int \<Rightarrow> string \<Rightarrow> chroma \<Rightarrow> world \<Rightarrow> (error + unit) \<times> world" where
  "add_summary_try env doc_id summary store w =
     (let d = \<lparr>sd_text = summary, sd_id = doc_id\<rparr> in
      case add_documents_fault env d of
        Some e \<Rightarrow> (Inl e, w)
      | None \<Rightarrow>
          (Inr (), w\<lparr>collections := (collections w)(store := collections w store @ [d]),
                     log := log w @ [InfoSummaryAdded doc_id]\<rparr>))"

text \<open>\<open>add_summary\<close>: the \<open>try\<close> block and its logging handler.\<close>

definition add_summary ::
  "env \<Rightarrow> int \<Rightarrow> string \<Rightarrow> chroma \<Rightarrow> world \<Rightarrow> (error + unit) \<times> world" where
  "add_summary env doc_id summary store w =
     (case add_summary_try env doc_id summary store w of
        (Inr u, w') \<Rightarrow> (Inr (), w')
      | (Inl e, w') \<Rightarrow> (Inr (), w'\<lparr>log := log w' @ [ErrorAddingSummary doc_id e]\<rparr>))"

section \<open>Ingestion (lines 51-80)\<close>

text \<open>\<open>Chroma(embeddings, collection_name="summary_vectors", persist_directory=p)\<close>.\<close>

definition Chroma :: "string \<Rightarrow> string \<Rightarrow> chroma" where
  "Chroma collection_name persist_directory = (persist_directory, collection_name)"

text \<open>\<open>img['path']\<close> for each image in turn, as the comprehension on line 74 reads them.\<close>

fun image_paths :: "image list \<Rightarrow> error + string list" where
  "image_paths [] = Inr []"
| "image_paths (img # imgs) =
     (case map_of img ''path'' of
        None \<Rightarrow> Inl KeyError
      | Some p \<Rightarrow>
          (case image_paths imgs of
             Inl e \<Rightarrow> Inl e
           | Inr ps \<Rightarrow> Inr (p # ps)))"

text \<open>
  The metadata dict of lines 69-75. \<open>.get('page_number', 0)\<close> gives the value under the
  key, whatever it is, and 0 only for an absent key; \<open>.get('images', [])\<close> gives \<open>None\<close>
  for a key present with that value, on which \<open>len\<close> raises.
\<close>

definition build_metadata :: "string \<Rightarrow> string \<Rightarrow> element \<Rightarrow> error + metadata" where
  "build_metadata filename file_path doc =
     (case dict_get (images (el_metadata doc)) (Images []) of
        NoImages \<Rightarrow> Inl TypeError
      | Images imgs \<Rightarrow>
          (case image_paths imgs of
             Inl e \<Rightarrow> Inl e
           | Inr ps \<Rightarrow>
               Inr [(''filename'', PyStr filename),
                    (''source'', PyStr file_path),
                    (''pagenumber'', dict_get (page_number (el_metadata doc)) (PyInt 0)),
                    (''image_count'', PyInt (int (length imgs))),
                    (''images'', PyDict (enumerate_from 0 ps))]))"

text \<open>
  The inner loop (lines 67-78) over the elements of one file. No statement of the loop
  body stands in a \<open>try\<close> block: an exception raised while the metadata dict is built, an
  exception of \<open>summary_chain.run\<close>, or one leaving \<open>add_document\<close> or \<open>add_summary\<close>,
  leaves the loop. The state reached so far is returned with it.
\<close>

fun process_elements ::
  "env \<Rightarrow> conn \<Rightarrow> chroma \<Rightarrow> int \<Rightarrow> string \<Rightarrow> string \<Rightarrow> element list \<Rightarrow> world
     \<Rightarrow> (error + unit) \<times> world" where
  "process_elements env c store doc_id filename file_path [] w = (Inr (), w)"
| "process_elements env c store doc_id filename file_path (doc # documents) w =
     (let content = el_text doc
      in case build_metadata filename file_path doc of
           Inl e \<Rightarrow> (Inl e, w)
         | Inr md \<Rightarrow>
             (case summary_chain_run env content of
                Inl e \<Rightarrow> (Inl e, w)
              | Inr summary \<Rightarrow>
                  (case add_document env c doc_id md w of
                     (Inl e, w1) \<Rightarrow> (Inl e, w1)
                   | (Inr u, w1) \<Rightarrow>
                       (case add_summary env doc_id summary store w1 of
                          (Inl e, w2) \<Rightarrow> (Inl e, w2)
                        | (Inr u', w2) \<Rightarrow>
                            process_elements env c store doc_id filename file_path
                              documents w2))))"

text \<open>The outer loop (lines 63-78) over the enumerated listing.\<close>

fun process_files ::
  "env \<Rightarrow> conn \<Rightarrow> chroma \<Rightarrow> string \<Rightarrow> (int \<times> string) list \<Rightarrow> world
     \<Rightarrow> (error + unit) \<times> world" where
  "process_files env c store folder_path [] w = (Inr (), w)"
| "process_files env c store folder_path ((doc_id, filename) # rest) w =
     (let file_path = path_join folder_path filename
      in case partition_auto env file_path of
           Inl e \<Rightarrow> (Inl e, w)
         | Inr documents \<Rightarrow>
             (case process_elements env c store doc_id filename file_path documents w of
                (Inl e, w') \<Rightarrow> (Inl e, w')
              | (Inr u, w') \<Rightarrow> process_files env c store folder_path rest w'))"

definition process_documents ::
  "env \<Rightarrow> string \<Rightarrow> string \<Rightarrow> world \<Rightarrow> (error + unit) \<times> world" where
  "process_documents env folder_path vector_db_path w =
     (let (c, w1) = connect_db default_db_name w;
          w2 = create_table c w1;
          summary_vector_store = Chroma ''summary_vectors'' vector_db_path
      in case listdir env folder_path of
           Inl e \<Rightarrow> (Inl e, w2)
         | Inr names \<Rightarrow>
             (case process_files env c summary_vector_store folder_path
                     (enumerate_from 1 names) w2 of
                (Inl e, w3) \<Rightarrow> (Inl e, w3)
              | (Inr u, w3) \<Rightarrow> (Inr (), close_conn c w3)))"

section \<open>Retrieval (lines 82-107)\<close>

text \<open>
  The retrieval chain reads the vector collection and the database of the connection it
  was built over; its answer is logged, and the function returns nothing.
\<close>

definition run_retrieval_chain ::
  "env \<Rightarrow> string \<Rightarrow> string \<Rightarrow> world \<Rightarrow> (error + unit) \<times> world" where
  "run_retrieval_chain env vector_db_path query w =
     (let (c, w1) = connect_db default_db_name w;
          summary_vector_store = Chroma ''summary_vectors'' vector_db_path
      in case retrieval_chain_run env (collections w1 summary_vector_store)
                (databases w1 c) query of
           Inl e \<Rightarrow> (Inl e, w1)
         | Inr result \<Rightarrow>
             (Inr (), close_conn c (w1\<lparr>log := log w1 @ [InfoQueryResult result]\<rparr>)))"

section \<open>The writes of a run\<close>

text \<open>
  Which writes a run attempts depends on the collaborators only, never on the stores:
  \<open>element_steps\<close> and \<open>file_steps\<close> list the \<open>(doc_id, metadata, summary)\<close> triples for
  which line 77 and line 78 are reached, \<open>element_outcome\<close> and \<open>file_outcome\<close> say how
  the loops end, and \<open>step\<close> is the effect of lines 77-78 for one triple.
\<close>

fun element_steps ::
  "env \<Rightarrow> int \<Rightarrow> string \<Rightarrow> string \<Rightarrow> element list \<Rightarrow> (int \<times> metadata \<times> string) list" where
  "element_steps env doc_id filename file_path [] = []"
| "element_steps env doc_id filename file_path (doc # documents) =
     (case build_metadata filename file_path doc of
        Inl e \<Rightarrow> []
      | Inr md \<Rightarrow>
          (case summary_chain_run env (el_text doc) of
             Inl e \<Rightarrow> []
           | Inr summary \<Rightarrow>
               (doc_id, md, summary) # element_steps env doc_id filename file_path documents))"

fun element_outcome :: "env \<Rightarrow> string \<Rightarrow> string \<Rightarrow> element list \<Rightarrow> error + unit" where
  "element_outcome env filename file_path [] = Inr ()"
| "element_outcome env filename file_path (doc # documents) =
     (case build_metadata filename file_path doc of
        Inl e \<Rightarrow> Inl e
      | Inr md \<Rightarrow>
          (case summary_chain_run env (el_text doc) of
             Inl e \<Rightarrow> Inl e
           | Inr summary \<Rightarrow> element_outcome env filename file_path documents))"

fun file_steps ::
  "env \<Rightarrow> string \<Rightarrow> (int \<times> string) list \<Rightarrow> (int \<times> metadata \<times> string) list" where
  "file_steps env folder_path [] = []"
| "file_steps env folder_path ((doc_id, filename) # rest) =
     (case partition_auto env (path_join folder_path filename) of
        Inl e \<Rightarrow> []
      | Inr documents \<Rightarrow>
          element_steps env doc_id filename (path_join folder_path filename) documents
            @ (case element_outcome env filename (path_join folder_path filename) documents of
                 Inl e \<Rightarrow> []
               | Inr u \<Rightarrow> file_steps env folder_path rest))"

fun file_outcome :: "env \<Rightarrow> string \<Rightarrow> (int \<times> string) list \<Rightarrow> error + unit" where
  "file_outcome env folder_path [] = Inr ()"
| "file_outcome env folder_path ((doc_id, filename) # rest) =
     (case partition_auto env (path_join folder_path filename) of
        Inl e \<Rightarrow> Inl e
      | Inr documents \<Rightarrow>
          (case element_outcome env filename (path_join folder_path filename) documents of
             Inl e \<Rightarrow> Inl e
           | Inr u \<Rightarrow> file_outcome env folder_path rest))"

definition step :: "env \<Rightarrow> conn \<Rightarrow> chroma \<Rightarrow> world \<Rightarrow> int \<times> metadata \<times> string \<Rightarrow> world" where
  "step env c store w x =
     (case x of (doc_id, md, summary) \<Rightarrow>
        snd (add_summary env doc_id summary store (snd (add_document env c doc_id md w))))"

text \<open>The writes and the outcome of a whole run of \<open>process_documents\<close>.\<close>

definition run_steps :: "env \<Rightarrow> string \<Rightarrow> (int \<times> metadata \<times> string) list" where
  "run_steps env folder_path =
     (case listdir env folder_path of
        Inl e \<Rightarrow> []
      | Inr names \<Rightarrow> file_steps env folder_path (enumerate_from 1 names))"

definition run_outcome :: "env \<Rightarrow> string \<Rightarrow> error + unit" where
  "run_outcome env folder_path =
     (case listdir env folder_path of
        Inl e \<Rightarrow> Inl e
      | Inr names \<Rightarrow> file_outcome env folder_path (enumerate_from 1 names))"

text \<open>The entries a list of writes appends to the summary collection.\<close>

definition summary_entries :: "env \<Rightarrow> (int \<times> metadata \<times> string) list \<Rightarrow> summary_doc list" where
  "summary_entries env xs =
     filter (\<lambda>d. add_documents_fault env d = None)
       (map (\<lambda>(doc_id, md, summary). \<lparr>sd_text = summary, sd_id = doc_id\<rparr>) xs)"

text \<open>
  The effect of lines 77-78 for one triple on the table of the connection's file and on
  its open transaction; \<open>opened\<close> says whether the connection is open.
\<close>

fun txn_step ::
  "env \<Rightarrow> bool \<Rightarrow> table option \<times> table \<Rightarrow> int \<times> metadata \<times> string
     \<Rightarrow> table option \<times> table" where
  "txn_step env opened (d, p) (doc_id, md, summary) =
     (if \<not> opened then (d, p)
      else case json_dumps env md of
        Inl e \<Rightarrow> (d, p)
      | Inr t \<Rightarrow>
          (case d of
             None \<Rightarrow> (d, p)
           | Some rows \<Rightarrow>
               if \<not> sqlite_integer doc_id \<or> doc_id \<in> set (map fst (rows @ p)) then (d, p)
               else (case commit_fault env doc_id t of
                       Some e \<Rightarrow> (d, p @ [(doc_id, t)])
                     | None \<Rightarrow> (Some (rows @ p @ [(doc_id, t)]), []))))"

text \<open>The primary keys committed in table \<open>documents\<close> of a database file.\<close>

definition table_keys :: "table option \<Rightarrow> int set" where
  "table_keys d = (case d of None \<Rightarrow> {} | Some rows \<Rightarrow> set (map fst rows))"

definition keys_of :: "world \<Rightarrow> string \<Rightarrow> int set" where
  "keys_of w db = table_keys (databases w db)"

section \<open>A concrete folder for evaluation\<close>

text \<open>
  Elements and an environment over the folder \<open>docs\<close>: \<open>a.pdf\<close> yields two elements
  (pages 1 and 2), \<open>c.txt\<close> one element without metadata, \<open>s.txt\<close> an element whose
  summarization raises followed by a sound one, and extraction raises on every other
  entry. The serializer keeps the file name and the page number (in unary). No commit
  fails in \<open>demo_env\<close>; in \<open>locked_env\<close> the commit of the call for id 1 raises.
\<close>

definition seg_p1 :: element where
  "seg_p1 = \<lparr>el_text = ''alpha'',
             el_metadata = \<lparr>page_number = Some (PyInt 1),
                            images = Some (Images [[(''path'', ''i/0.png'')],
                                                   [(''path'', ''i/1.png'')]])\<rparr>\<rparr>"

definition seg_p2 :: element where
  "seg_p2 = \<lparr>el_text = ''beta'',
             el_metadata = \<lparr>page_number = Some (PyInt 2), images = None\<rparr>\<rparr>"

definition seg_c :: element where
  "seg_c = \<lparr>el_text = ''gamma'', el_metadata = \<lparr>page_number = None, images = None\<rparr>\<rparr>"

definition seg_boom :: element where
  "seg_boom = \<lparr>el_text = ''boom'', el_metadata = \<lparr>page_number = None, images = None\<rparr>\<rparr>"

text \<open>An element whose page number is present and unknown: \<open>{'page_number': None}\<close>.\<close>

definition seg_unknown :: element where
  "seg_unknown = \<lparr>el_text = ''delta'',
                  el_metadata = \<lparr>page_number = Some PyNone, images = None\<rparr>\<rparr>"

text \<open>The metadata dicts of the two elements of \<open>docs/a.pdf\<close>.\<close>

definition md_p1 :: metadata where
  "md_p1 = [(''filename'', PyStr ''a.pdf''), (''source'', PyStr ''docs/a.pdf''),
            (''pagenumber'', PyInt 1), (''image_count'', PyInt 2),
            (''images'', PyDict [(0, ''i/0.png''), (1, ''i/1.png'')])]"

definition md_p2 :: metadata where
  "md_p2 = [(''filename'', PyStr ''a.pdf''), (''source'', PyStr ''docs/a.pdf''),
            (''pagenumber'', PyInt 2), (''image_count'', PyInt 0), (''images'', PyDict [])]"

definition demo_dumps :: "metadata \<Rightarrow> string" where
  "demo_dumps md =
     (case (map_of md ''filename'', map_of md ''pagenumber'') of
        (Some (PyStr f), Some (PyInt n)) \<Rightarrow> f @ ''#'' @ replicate (nat n) (CHR ''I'')
      | _ \<Rightarrow> ''?'')"

definition demo_env :: "string list \<Rightarrow> env" where
  "demo_env names =
     \<lparr>listdir = (\<lambda>p. if p = ''docs'' then Inr names else Inl (External ''FileNotFoundError'')),
      partition_auto = (\<lambda>p.
        if p = ''docs/a.pdf'' then Inr [seg_p1, seg_p2]
        else if p = ''docs/c.txt'' then Inr [seg_c]
        else if p = ''docs/s.txt'' then Inr [seg_boom, seg_c]
        else Inl (External ''ExtractionError'')),
      summary_chain_run = (\<lambda>t.
        if t = ''boom'' then Inl (External ''SummarizationError'') else Inr (take 3 t)),
      json_dumps = (\<lambda>md. Inr (demo_dumps md)),
      add_documents_fault = (\<lambda>d. None),
      commit_fault = (\<lambda>i t. None),
      retrieval_chain_run = (\<lambda>docs t q.
        if docs = [] then Inl (External ''SearchError'') else Inr (sd_text (hd docs)))\<rparr>"

definition locked_env :: env where
  "locked_env =
     (demo_env [])\<lparr>commit_fault :=
        (\<lambda>i t. if i = 1 then Some (External ''database is locked'') else None)\<rparr>"

definition world0 :: world where
  "world0 = \<lparr>databases = (\<lambda>db. None), pending = (\<lambda>db. []), collections = (\<lambda>s. []),
             open_conns = [], log = []\<rparr>"

section \<open>Properties\<close>


subsection \<open>The per-item writes\<close>

lemma add_document_returns: "fst (add_document env c doc_id md w) = Inr ()"
  by (simp add: add_document_def split: prod.splits sum.splits)

lemma add_summary_returns: "fst (add_summary env doc_id summary store w) = Inr ()"
  by (simp add: add_summary_def split: prod.splits sum.splits)

lemmas write_defs = add_document_def add_document_try_def insert_row_def commit_def
  commit_pending_def

lemma add_summary_databases:
  "databases (snd (add_summary env doc_id summary store w)) = databases w"
  by (simp add: add_summary_def add_summary_try_def Let_def split: option.splits)

lemma add_summary_pending:
  "pending (snd (add_summary env doc_id summary store w)) = pending w"
  by (simp add: add_summary_def add_summary_try_def Let_def split: option.splits)

lemma add_summary_open_conns:
  "open_conns (snd (add_summary env doc_id summary store w)) = open_conns w"
  by (simp add: add_summary_def add_summary_try_def Let_def split: option.splits)

lemma add_summary_collections:
  "collections (snd (add_summary env doc_id summary store w)) =
     (collections w)(store := collections w store
        @ filter (\<lambda>d. add_documents_fault env d = None)
            [\<lparr>sd_text = summary, sd_id = doc_id\<rparr>])"
  by (auto simp: add_summary_def add_summary_try_def Let_def split: option.splits)

lemma add_document_effect:
  "snd (add_document env c doc_id md w) =
     (if c \<notin> set (open_conns w)
      then w\<lparr>log := log w @ [ErrorAddingDocument doc_id ProgrammingError]\<rparr>
      else case json_dumps env md of
        Inl e \<Rightarrow> w\<lparr>log := log w @ [ErrorAddingDocument doc_id e]\<rparr>
      | Inr t \<Rightarrow>
          (case databases w c of
             None \<Rightarrow> w\<lparr>log := log w @ [ErrorAddingDocument doc_id OperationalError]\<rparr>
           | Some rows \<Rightarrow>
               if \<not> sqlite_integer doc_id
               then w\<lparr>log := log w @ [ErrorAddingDocument doc_id OverflowError]\<rparr>
               else if doc_id \<in> set (map fst (rows @ pending w c))
               then w\<lparr>log := log w @ [ErrorAddingDocument doc_id IntegrityError]\<rparr>
               else (case commit_fault env doc_id t of
                       Some e \<Rightarrow>
                         w\<lparr>pending := (pending w)(c := pending w c @ [(doc_id, t)]),
                            log := log w @ [ErrorAddingDocument doc_id e]\<rparr>
                     | None \<Rightarrow>
                         w\<lparr>databases := (databases w)(c := Some (rows @ pending w c @ [(doc_id, t)])),
                            pending := (pending w)(c := []),
                            log := log w @ [InfoDocumentAdded doc_id]\<rparr>)))"
  by (simp add: write_defs split: sum.split option.split)

lemma add_document_collections:
  "collections (snd (add_document env c doc_id md w)) = collections w"
  by (simp add: add_document_effect split: sum.split option.split)

lemma add_document_open_conns:
  "open_conns (snd (add_document env c doc_id md w)) = open_conns w"
  by (simp add: add_document_effect split: sum.split option.split)

lemma add_document_other_db:
  "db \<noteq> c \<Longrightarrow> databases (snd (add_document env c doc_id md w)) db = databases w db"
  by (simp add: add_document_effect split: sum.split option.split)

lemma add_document_txn:
  "(databases (snd (add_document env c doc_id md w)) c,
    pending (snd (add_document env c doc_id md w)) c)
     = txn_step env (c \<in> set (open_conns w)) (databases w c, pending w c) (doc_id, md, summary)"
  by (simp add: add_document_effect split: sum.split option.split)

subsection \<open>The loops as folds over their writes\<close>

lemma process_elements_eq:
  "process_elements env c store doc_id filename file_path documents w =
     (element_outcome env filename file_path documents,
      foldl (step env c store) w (element_steps env doc_id filename file_path documents))"
proof (induction documents arbitrary: w)
  case Nil
  show ?case by simp
next
  case (Cons doc documents)
  show ?case
  proof (cases "build_metadata filename file_path doc")
    case (Inl e)
    then show ?thesis by simp
  next
    case built: (Inr md)
    show ?thesis
    proof (cases "summary_chain_run env (el_text doc)")
      case (Inl e)
      then show ?thesis using built by simp
    next
      case (Inr summary)
      obtain w1 where w1: "add_document env c doc_id md w = (Inr (), w1)"
        using add_document_returns[of env c doc_id md w]
        by (cases "add_document env c doc_id md w") simp
      obtain w2 where w2: "add_summary env doc_id summary store w1 = (Inr (), w2)"
        using add_summary_returns[of env doc_id summary store w1]
        by (cases "add_summary env doc_id summary store w1") simp
      have "step env c store w (doc_id, md, summary) = w2"
        by (simp add: step_def w1 w2)
      then show ?thesis using built Inr w1 w2 Cons.IH[of w2] by simp
    qed
  qed
qed

lemma process_files_eq:
  "process_files env c store folder_path pairs w =
     (file_outcome env folder_path pairs,
      foldl (step env c store) w (file_steps env folder_path pairs))"
proof (induction pairs arbitrary: w)
  case Nil
  show ?case by simp
next
  case (Cons p pairs)
  obtain doc_id filename where p: "p = (doc_id, filename)" by (cases p)
  show ?case
  proof (cases "partition_auto env (path_join folder_path filename)")
    case (Inl e)
    then show ?thesis by (simp add: p)
  next
    case (Inr documents)
    show ?thesis
    proof (cases "element_outcome env filename (path_join folder_path filename) documents")
      case (Inl e)
      then show ?thesis using Inr by (simp add: p process_elements_eq)
    next
      case inner: (Inr u)
      then show ?thesis using Inr Cons.IH by (simp add: p process_elements_eq)
    qed
  qed
qed

lemma process_documents_eq:
  "process_documents env folder_path vector_db_path w =
     (run_outcome env folder_path,
      (case run_outcome env folder_path of
         Inl e \<Rightarrow> (\<lambda>w'. w')
       | Inr u \<Rightarrow> close_conn default_db_name)
        (foldl (step env default_db_name (Chroma ''summary_vectors'' vector_db_path))
           (create_table default_db_name (snd (connect_db default_db_name w)))
           (run_steps env folder_path)))"
  by (simp add: process_documents_def run_outcome_def run_steps_def connect_db_def
      process_files_eq split: sum.splits)

subsection \<open>What a fold of writes changes\<close>

lemma step_open_conns: "open_conns (step env c store w x) = open_conns w"
  by (cases x) (simp add: step_def add_summary_open_conns add_document_open_conns)

lemma fold_open_conns: "open_conns (foldl (step env c store) w xs) = open_conns w"
  by (induction xs arbitrary: w) (simp_all add: step_open_conns)

lemma step_other_db: "db \<noteq> c \<Longrightarrow> databases (step env c store w x) db = databases w db"
  by (cases x) (simp add: step_def add_summary_databases add_document_other_db)

lemma fold_other_db:
  "db \<noteq> c \<Longrightarrow> databases (foldl (step env c store) w xs) db = databases w db"
  by (induction xs arbitrary: w) (simp_all add: step_other_db)

lemma step_collections:
  "collections (step env c store w x) =
     (collections w)(store := collections w store @ summary_entries env [x])"
  by (cases x)
    (simp add: step_def add_summary_collections add_document_collections summary_entries_def)

lemma summary_entries_Cons:
  "summary_entries env (x # xs) = summary_entries env [x] @ summary_entries env xs"
  by (simp add: summary_entries_def)

lemma fold_collections:
  "collections (foldl (step env c store) w xs) =
     (collections w)(store := collections w store @ summary_entries env xs)"
proof (induction xs arbitrary: w)
  case Nil
  show ?case by (simp add: summary_entries_def)
next
  case (Cons x xs)
  show ?case
    by (rule ext) (simp add: Cons.IH step_collections summary_entries_Cons[of env x xs])
qed

lemma step_txn:
  "(databases (step env c store w x) c, pending (step env c store w x) c)
     = txn_step env (c \<in> set (open_conns w)) (databases w c, pending w c) x"
proof (cases x)
  case (fields doc_id md summary)
  show ?thesis
    using add_document_txn[of env c doc_id md w summary]
    by (simp add: fields step_def add_summary_databases add_summary_pending)
qed

lemma fold_txn:
  "(databases (foldl (step env c store) w xs) c, pending (foldl (step env c store) w xs) c)
     = foldl (txn_step env (c \<in> set (open_conns w))) (databases w c, pending w c) xs"
proof (induction xs arbitrary: w)
  case Nil
  show ?case by simp
next
  case (Cons x xs)
  show ?case
    using Cons.IH[of "step env c store w x"]
    by (simp add: step_open_conns step_txn)
qed

lemma fold_databases:
  "databases (foldl (step env c store) w xs) =
     (databases w)(c := fst (foldl (txn_step env (c \<in> set (open_conns w)))
                               (databases w c, pending w c) xs))"
proof (rule ext)
  fix db
  show "databases (foldl (step env c store) w xs) db =
     ((databases w)(c := fst (foldl (txn_step env (c \<in> set (open_conns w)))
                               (databases w c, pending w c) xs))) db"
  proof (cases "db = c")
    case True
    then show ?thesis using fold_txn[of env c store w xs, symmetric] by simp
  next
    case False
    then show ?thesis by (simp add: fold_other_db)
  qed
qed


subsection \<open>The table and the open transaction along a fold\<close>

lemma txn_step_mono:
  assumes "fst s \<noteq> None"
  shows "fst (txn_step env opened s x) \<noteq> None
       \<and> table_keys (fst s) \<subseteq> table_keys (fst (txn_step env opened s x))"
proof -
  obtain d p where s: "s = (d, p)" by (cases s)
  obtain doc_id md summary where x: "x = (doc_id, md, summary)" by (cases x)
  show ?thesis using assms
    by (auto simp: s x table_keys_def split: sum.split option.split)
qed

lemma txn_fold_mono:
  "fst s \<noteq> None \<Longrightarrow>
   fst (foldl (txn_step env opened) s xs) \<noteq> None
     \<and> table_keys (fst s) \<subseteq> table_keys (fst (foldl (txn_step env opened) s xs))"
proof (induction xs arbitrary: s)
  case Nil
  then show ?case by simp
next
  case (Cons x xs)
  from txn_step_mono[OF Cons.prems, of env opened x]
    Cons.IH[of "txn_step env opened s x"]
  show ?case by auto
qed

lemma txn_step_replay:
  assumes ex: "d1 = Some rows1"
      and fin: "table_keys (fst (txn_step env opened (d1, p1) x)) \<subseteq> table_keys dF"
      and exF: "dF \<noteq> None"
  shows "txn_step env opened (dF, filter (\<lambda>r. fst r \<notin> table_keys dF) p1) x
           = (dF, filter (\<lambda>r. fst r \<notin> table_keys dF) (snd (txn_step env opened (d1, p1) x)))"
proof -
  obtain doc_id md summary where x: "x = (doc_id, md, summary)" by (cases x)
  obtain rowsF where dF: "dF = Some rowsF" using exF by auto
  show ?thesis
  proof (cases "opened")
    case False
    then show ?thesis by (simp add: x)
  next
    case opened: True
    show ?thesis
    proof (cases "json_dumps env md")
      case (Inl e)
      then show ?thesis by (simp add: x)
    next
      case (Inr t)
      show ?thesis
      proof (cases "sqlite_integer doc_id")
        case False
        then show ?thesis using Inr by (simp add: x ex dF)
      next
        case range: True
        show ?thesis
        proof (cases "doc_id \<in> set (map fst (rows1 @ p1))")
          case True
          then have "doc_id \<in> set (map fst (rowsF @ filter (\<lambda>r. fst r \<notin> table_keys dF) p1))"
            using fin Inr opened range by (auto simp: x ex dF table_keys_def)
          then show ?thesis using True Inr opened range by (simp add: x ex dF)
        next
          case fresh: False
          show ?thesis
          proof (cases "commit_fault env doc_id t")
            case None
            then have sub: "set (map fst (rows1 @ p1 @ [(doc_id, t)])) \<subseteq> table_keys dF"
              using fin Inr opened range fresh by (simp add: x ex table_keys_def)
            then have "doc_id \<in> set (map fst rowsF)" by (auto simp: dF table_keys_def)
            moreover have "filter (\<lambda>r. fst r \<notin> table_keys dF) p1 = []"
              using sub by (auto simp: filter_empty_conv)
            ultimately show ?thesis using None Inr opened range fresh
              by (simp add: x ex dF)
          next
            case (Some e)
            show ?thesis
            proof (cases "doc_id \<in> table_keys dF")
              case True
              then show ?thesis using Some Inr opened range fresh
                by (auto simp: x ex dF table_keys_def)
            next
              case False
              then have "doc_id \<notin> set (map fst (rowsF @ filter (\<lambda>r. fst r \<notin> table_keys dF) p1))"
                using fresh by (auto simp: dF table_keys_def)
              then show ?thesis using False Some Inr opened range fresh
                by (simp add: x ex dF)
            qed
          qed
        qed
      qed
    qed
  qed
qed

lemma txn_fold_replay:
  "d1 \<noteq> None \<Longrightarrow>
   fst (foldl (txn_step env opened)
          (fst (foldl (txn_step env opened) (d1, p1) xs),
           filter (\<lambda>r. fst r \<notin> table_keys (fst (foldl (txn_step env opened) (d1, p1) xs))) p1)
          xs)
     = fst (foldl (txn_step env opened) (d1, p1) xs)"
proof (induction xs arbitrary: d1 p1)
  case Nil
  show ?case by simp
next
  case (Cons x xs)
  let ?T = "txn_step env opened"
  obtain d1' p1' where step1: "?T (d1, p1) x = (d1', p1')" by (cases "?T (d1, p1) x")
  let ?F = "fst (foldl ?T (d1', p1') xs)"
  obtain rows1 where d1: "d1 = Some rows1" using Cons.prems by auto
  have ex1: "d1' \<noteq> None"
    using txn_step_mono[of "(d1, p1)" env opened x] Cons.prems by (simp add: step1)
  have exF: "?F \<noteq> None" and sub: "table_keys d1' \<subseteq> table_keys ?F"
    using txn_fold_mono[of "(d1', p1')" env opened xs] ex1 by simp_all
  have "table_keys (fst (?T (d1, p1) x)) \<subseteq> table_keys ?F"
    using sub by (simp add: step1)
  with d1 have "?T (?F, filter (\<lambda>r. fst r \<notin> table_keys ?F) p1) x
      = (?F, filter (\<lambda>r. fst r \<notin> table_keys ?F) (snd (?T (d1, p1) x)))"
    using exF by (rule txn_step_replay)
  then have step2: "?T (?F, filter (\<lambda>r. fst r \<notin> table_keys ?F) p1) x
      = (?F, filter (\<lambda>r. fst r \<notin> table_keys ?F) p1')"
    by (simp add: step1)
  show ?case using Cons.IH[OF ex1, of p1'] by (simp add: step1 step2)
qed

subsection \<open>The start and the end of a run\<close>

lemma start_state:
  "databases (create_table c (snd (connect_db c w)))
     = (databases w)(c := Some (case databases w c of None \<Rightarrow> [] | Some rows \<Rightarrow> rows))"
  "pending (create_table c (snd (connect_db c w))) c = []"
  "open_conns (create_table c (snd (connect_db c w))) = c # open_conns w"
  "collections (create_table c (snd (connect_db c w))) = collections w"
  "log (create_table c (snd (connect_db c w))) = log w"
  by (auto simp: create_table_def connect_db_def commit_pending_def split: option.split)

lemma run_databases:
  "databases (snd (process_documents env folder_path vector_db_path w)) =
     (databases w)(default_db_name :=
        fst (foldl (txn_step env True)
               (Some (case databases w default_db_name of None \<Rightarrow> [] | Some rows \<Rightarrow> rows), [])
               (run_steps env folder_path)))"
  by (simp add: process_documents_eq close_conn_def fold_databases start_state
      split: sum.split)

lemma run_collections:
  "collections (snd (process_documents env folder_path vector_db_path w)) =
     (collections w)(Chroma ''summary_vectors'' vector_db_path :=
        collections w (Chroma ''summary_vectors'' vector_db_path)
          @ summary_entries env (run_steps env folder_path))"
  by (simp add: process_documents_eq close_conn_def fold_collections start_state
      split: sum.split)

lemma rerun_databases:
  "databases (snd (process_documents env folder_path vector_db_path
       (snd (process_documents env folder_path vector_db_path w))))
     = databases (snd (process_documents env folder_path vector_db_path w))"
proof -
  let ?T = "txn_step env True"
  let ?xs = "run_steps env folder_path"
  let ?s1 = "(Some (case databases w default_db_name of None \<Rightarrow> [] | Some rows \<Rightarrow> rows), [])
              :: table option \<times> table"
  let ?F = "fst (foldl ?T ?s1 ?xs)"
  have exF: "?F \<noteq> None" using txn_fold_mono[of ?s1 env True ?xs] by simp
  then obtain rowsF where F: "?F = Some rowsF" by auto
  have "fst (foldl ?T (Some rowsF, []) ?xs) = Some rowsF"
    using txn_fold_replay[of "fst ?s1" env True "[]" ?xs] by (simp add: F)
  then show ?thesis
    by (simp add: run_databases[of env folder_path vector_db_path
          "snd (process_documents env folder_path vector_db_path w)"]
        run_databases[of env folder_path vector_db_path w] F)
qed

text \<open>
  C5. The collaborators and the folder being the same for both runs, a second run of
  \<open>process_documents\<close> over the same folder and paths appends to the summary collection
  exactly the entries the first run appended, so a collection that was empty before the
  first run holds twice as many entries after the second; the table \<open>documents\<close> has as
  many rows after the second run as after the first.
\<close>

theorem rerun_doubles_index_keeps_rows:
  assumes "collections w (Chroma ''summary_vectors'' vector_db_path) = []"
  shows "length (collections
             (snd (process_documents env folder_path vector_db_path
                (snd (process_documents env folder_path vector_db_path w))))
             (Chroma ''summary_vectors'' vector_db_path))
           = 2 * length (collections (snd (process_documents env folder_path vector_db_path w))
                (Chroma ''summary_vectors'' vector_db_path))
       \<and> row_count (snd (process_documents env folder_path vector_db_path
                (snd (process_documents env folder_path vector_db_path w)))) default_db_name
           = row_count (snd (process_documents env folder_path vector_db_path w)) default_db_name"
  using assms by (simp add: run_collections row_count_def rerun_databases)


lemmas demo_defs = demo_env_def locked_env_def demo_dumps_def seg_p1_def seg_p2_def seg_c_def
  seg_boom_def seg_unknown_def md_p1_def md_p2_def world0_def numeral_2_eq_2

lemmas run_defs = process_documents_def connect_db_def create_table_def close_conn_def
  commit_pending_def default_db_name_def Chroma_def path_join_def build_metadata_def
  dict_get_def add_document_def add_document_try_def insert_row_def commit_def
  sqlite_integer_def add_summary_def add_summary_try_def stored_def row_count_def
  fun_upd_idem

theorem rerun_doubles_index_keeps_rows_witness:
  "collections world0 (Chroma ''summary_vectors'' ''vdb'') = []
   \<and> length (collections
        (snd (process_documents (demo_env [''a.pdf'', ''c.txt'']) ''docs'' ''vdb''
           (snd (process_documents (demo_env [''a.pdf'', ''c.txt'']) ''docs'' ''vdb'' world0))))
        (Chroma ''summary_vectors'' ''vdb'')) = 6
   \<and> length (collections
        (snd (process_documents (demo_env [''a.pdf'', ''c.txt'']) ''docs'' ''vdb'' world0))
        (Chroma ''summary_vectors'' ''vdb'')) = 3
   \<and> row_count (snd (process_documents (demo_env [''a.pdf'', ''c.txt'']) ''docs'' ''vdb''
           (snd (process_documents (demo_env [''a.pdf'', ''c.txt'']) ''docs'' ''vdb'' world0))))
        default_db_name = 2
   \<and> row_count (snd (process_documents (demo_env [''a.pdf'', ''c.txt'']) ''docs'' ''vdb'' world0))
        default_db_name = 2"
proof -
  have h: "collections world0 (Chroma ''summary_vectors'' ''vdb'') = []"
    by (simp add: world0_def)
  have one: "length (collections
        (snd (process_documents (demo_env [''a.pdf'', ''c.txt'']) ''docs'' ''vdb'' world0))
        (Chroma ''summary_vectors'' ''vdb'')) = 3"
    by (simp add: demo_defs run_defs)
  have rows: "row_count (snd (process_documents (demo_env [''a.pdf'', ''c.txt'']) ''docs'' ''vdb'' world0))
        default_db_name = 2"
    by (simp add: demo_defs run_defs)
  from rerun_doubles_index_keeps_rows[OF h, of "demo_env [''a.pdf'', ''c.txt'']" "''docs''"]
  show ?thesis using h one rows by simp
qed

subsection \<open>Writes under one id\<close>

lemma map_of_snoc_fresh: "k \<notin> set (map fst rows) \<Longrightarrow> map_of (rows @ [(k, v)]) k = Some v"
  by (induction rows) auto

lemma txn_same_id_noop:
  assumes "\<not> opened \<or> \<not> sqlite_integer i \<or> i \<in> set (map fst (rows @ p))"
      and "\<forall>x \<in> set xs. fst x = i"
  shows "foldl (txn_step env opened) (Some rows, p) xs = (Some rows, p)"
  using assms(2)
proof (induction xs)
  case Nil
  show ?case by simp
next
  case (Cons x xs)
  obtain md summary where x: "x = (i, md, summary)" using Cons.prems by (cases x) auto
  have "txn_step env opened (Some rows, p) x = (Some rows, p)"
    using assms(1) by (auto simp: x split: sum.split)
  then show ?case using Cons by simp
qed

lemma element_steps_ids:
  "\<forall>x \<in> set (element_steps env doc_id filename file_path documents). fst x = doc_id"
  by (induction documents) (auto split: sum.split)

lemma stored_fold:
  "stored (foldl (step env c store) w xs) c i =
     (case fst (foldl (txn_step env (c \<in> set (open_conns w))) (databases w c, pending w c) xs) of
        None \<Rightarrow> None
      | Some rows \<Rightarrow> map_of rows i)"
  using fold_txn[of env c store w xs, symmetric] by (simp add: stored_def)

lemma first_write_then_same_id:
  assumes ser: "json_dumps env md = Inr txt"
      and ids: "\<forall>x \<in> set xs. fst x = doc_id"
  shows "fst (foldl (txn_step env opened) (Some rows, []) ((doc_id, md, summary) # xs)) =
           Some (if opened \<and> sqlite_integer doc_id \<and> doc_id \<notin> set (map fst rows)
                    \<and> commit_fault env doc_id txt = None
                 then rows @ [(doc_id, txt)] else rows)"
proof (cases "opened \<and> sqlite_integer doc_id \<and> doc_id \<notin> set (map fst rows)")
  case False
  then have "foldl (txn_step env opened) (Some rows, []) ((doc_id, md, summary) # xs)
               = (Some rows, [])"
    using ids by (intro txn_same_id_noop) auto
  then show ?thesis using False by auto
next
  case True
  show ?thesis
  proof (cases "commit_fault env doc_id txt")
    case None
    have "foldl (txn_step env opened) (Some (rows @ [(doc_id, txt)]), []) xs
            = (Some (rows @ [(doc_id, txt)]), [])"
      using ids by (intro txn_same_id_noop) auto
    then show ?thesis using True None ser by simp
  next
    case (Some e)
    have "foldl (txn_step env opened) (Some rows, [(doc_id, txt)]) xs
            = (Some rows, [(doc_id, txt)])"
      using ids by (intro txn_same_id_noop) auto
    then show ?thesis using True Some ser by simp
  qed
qed

lemma stored_first_write:
  assumes tbl: "databases w c = Some rows"
      and pend: "pending w c = []"
      and m: "json_dumps env m = Inr t"
      and ids: "\<forall>x \<in> set xs. fst x = doc_id"
  shows "stored (foldl (step env c store) w ((doc_id, m, summary) # xs)) c doc_id =
        (case map_of rows doc_id of
           Some old \<Rightarrow> Some old
         | None \<Rightarrow>
             if c \<in> set (open_conns w) \<and> sqlite_integer doc_id
                  \<and> commit_fault env doc_id t = None
             then Some t else None)"
proof (cases "map_of rows doc_id")
  case None
  then have "doc_id \<notin> set (map fst rows)" by (simp add: map_of_eq_None_iff)
  then show ?thesis
    using None first_write_then_same_id[OF m ids, of "c \<in> set (open_conns w)" rows summary]
    by (simp add: stored_fold tbl pend map_of_snoc_fresh del: foldl_Cons map_of_append)
next
  case (Some old)
  then have "doc_id \<in> set (map fst rows)"
    by (metis map_of_eq_None_iff option.distinct(1) set_map)
  then show ?thesis
    using Some first_write_then_same_id[OF m ids, of "c \<in> set (open_conns w)" rows summary]
    by (simp add: stored_fold tbl pend del: foldl_Cons)
qed

text \<open>
  C1 (as the code has it). On a connection with no open transaction, a write stores the
  serialized metadata under an id only when the table has no row with that id (and the
  connection is open, the id an SQLite integer and the commit does not raise); a write
  for an id already present is refused and the row already stored stays. Over the
  elements of one file, which share the file's id, the row is the one written for the
  first element (or the one already there), whatever follows.
\<close>

theorem record_store_first_write_wins:
  assumes tbl: "databases w c = Some rows"
      and pend: "pending w c = []"
      and ser: "json_dumps env md = Inr txt"
      and sum: "summary_chain_run env (el_text doc) = Inr summary"
      and built: "build_metadata filename file_path doc = Inr md'"
      and ser': "json_dumps env md' = Inr txt'"
  shows "stored (snd (add_document env c doc_id md w)) c doc_id =
           (case map_of rows doc_id of
              Some old \<Rightarrow> Some old
            | None \<Rightarrow>
                if c \<in> set (open_conns w) \<and> sqlite_integer doc_id
                     \<and> commit_fault env doc_id txt = None
                then Some txt else None)
       \<and> stored (snd (process_elements env c store doc_id filename file_path (doc # documents) w))
           c doc_id =
           (case map_of rows doc_id of
              Some old \<Rightarrow> Some old
            | None \<Rightarrow>
                if c \<in> set (open_conns w) \<and> sqlite_integer doc_id
                     \<and> commit_fault env doc_id txt' = None
                then Some txt' else None)"
proof -
  have "stored (snd (add_document env c doc_id md w)) c doc_id
          = stored (foldl (step env c store) w [(doc_id, md, summary)]) c doc_id"
    by (simp add: stored_def step_def add_summary_databases)
  then have a: "stored (snd (add_document env c doc_id md w)) c doc_id =
           (case map_of rows doc_id of
              Some old \<Rightarrow> Some old
            | None \<Rightarrow>
                if c \<in> set (open_conns w) \<and> sqlite_integer doc_id
                     \<and> commit_fault env doc_id txt = None
                then Some txt else None)"
    using stored_first_write[OF tbl pend ser, of "[]" doc_id store summary] by simp
  have "snd (process_elements env c store doc_id filename file_path (doc # documents) w)
          = foldl (step env c store) w
              ((doc_id, md', summary) # element_steps env doc_id filename file_path documents)"
    using sum built by (simp add: process_elements_eq)
  then have b: "stored (snd (process_elements env c store doc_id filename file_path
                  (doc # documents) w)) c doc_id =
           (case map_of rows doc_id of
              Some old \<Rightarrow> Some old
            | None \<Rightarrow>
                if c \<in> set (open_conns w) \<and> sqlite_integer doc_id
                     \<and> commit_fault env doc_id txt' = None
                then Some txt' else None)"
    using stored_first_write[OF tbl pend ser' element_steps_ids] by simp
  show ?thesis using a b by blast
qed


theorem record_store_first_write_wins_witness:
  "databases (create_table ''documents.db'' (snd (connect_db ''documents.db'' world0)))
     ''documents.db'' = Some []
   \<and> pending (create_table ''documents.db'' (snd (connect_db ''documents.db'' world0)))
       ''documents.db'' = []
   \<and> json_dumps (demo_env [''a.pdf'']) md_p2 = Inr ''a.pdf#II''
   \<and> summary_chain_run (demo_env [''a.pdf'']) (el_text seg_p1) = Inr ''alp''
   \<and> build_metadata ''a.pdf'' ''docs/a.pdf'' seg_p1 = Inr md_p1
   \<and> json_dumps (demo_env [''a.pdf'']) md_p1 = Inr ''a.pdf#I''
   \<and> stored (snd (add_document (demo_env [''a.pdf'']) ''documents.db'' 1 md_p2
                (create_table ''documents.db'' (snd (connect_db ''documents.db'' world0)))))
        ''documents.db'' 1
       = Some ''a.pdf#II''
   \<and> stored (snd (process_elements (demo_env [''a.pdf'']) ''documents.db''
                (''vdb'', ''summary_vectors'') 1 ''a.pdf'' ''docs/a.pdf'' [seg_p1, seg_p2]
                (create_table ''documents.db'' (snd (connect_db ''documents.db'' world0)))))
        ''documents.db'' 1
       = Some ''a.pdf#I''"
proof -
  let ?w = "create_table ''documents.db'' (snd (connect_db ''documents.db'' world0))"
  have h1: "databases ?w ''documents.db'' = Some []"
    by (simp add: start_state world0_def)
  have h2: "pending ?w ''documents.db'' = []"
    by (simp add: start_state)
  have h3: "json_dumps (demo_env [''a.pdf'']) md_p2 = Inr ''a.pdf#II''"
    by (simp add: demo_defs)
  have h4: "summary_chain_run (demo_env [''a.pdf'']) (el_text seg_p1) = Inr ''alp''"
    by (simp add: demo_defs)
  have h5: "build_metadata ''a.pdf'' ''docs/a.pdf'' seg_p1 = Inr md_p1"
    by (simp add: demo_defs build_metadata_def dict_get_def)
  have h6: "json_dumps (demo_env [''a.pdf'']) md_p1 = Inr ''a.pdf#I''"
    by (simp add: demo_defs)
  have o: "''documents.db'' \<in> set (open_conns ?w)" by (simp add: start_state)
  have f: "commit_fault (demo_env [''a.pdf'']) 1 t = None" for t by (simp add: demo_env_def)
  from record_store_first_write_wins[OF h1 h2 h3 h4 h5 h6, of 1 "(''vdb'', ''summary_vectors'')"
      "[seg_p2]"]
  show ?thesis using h1 h2 h3 h4 h5 h6 o f by (simp add: sqlite_integer_def)
qed

theorem put_overwrites_counterexample:
  "partition_auto (demo_env [''a.pdf'']) ''docs/a.pdf'' = Inr [seg_p1, seg_p2]
   \<and> build_metadata ''a.pdf'' ''docs/a.pdf'' seg_p1 = Inr md_p1
   \<and> build_metadata ''a.pdf'' ''docs/a.pdf'' seg_p2 = Inr md_p2
   \<and> json_dumps (demo_env [''a.pdf'']) md_p1 = Inr ''a.pdf#I''
   \<and> json_dumps (demo_env [''a.pdf'']) md_p2 = Inr ''a.pdf#II''
   \<and> stored (snd (process_documents (demo_env [''a.pdf'']) ''docs'' ''vdb'' world0))
       ''documents.db'' 1 = Some ''a.pdf#I''
   \<and> stored (snd (add_document (demo_env [''a.pdf'']) ''documents.db'' 1 md_p2
         (snd (add_document (demo_env [''a.pdf'']) ''documents.db'' 1 md_p1
            (create_table ''documents.db'' (snd (connect_db ''documents.db'' world0)))))))
       ''documents.db'' 1 = Some ''a.pdf#I''"
  by (simp add: demo_defs run_defs)

text \<open>
  C2 (what the code does). The call of \<open>partition\<close> on line 65 stands in no \<open>try\<close> block.
  In the folder \<open>a.pdf, bad.bin, c.txt\<close>, where extraction raises on \<open>bad.bin\<close>, the run
  ends with that exception: nothing is stored for \<open>bad.bin\<close>, but \<open>c.txt\<close>, which
  extracts soundly, is never reached (no row, no summary entry with id 3), and the log
  holds no record of the failure.
\<close>

theorem extraction_failure_aborts_run:
  "partition_auto (demo_env [''a.pdf'', ''bad.bin'', ''c.txt'']) ''docs/bad.bin''
     = Inl (External ''ExtractionError'')
   \<and> partition_auto (demo_env [''a.pdf'', ''bad.bin'', ''c.txt'']) ''docs/c.txt'' = Inr [seg_c]
   \<and> fst (process_documents (demo_env [''a.pdf'', ''bad.bin'', ''c.txt'']) ''docs'' ''vdb'' world0)
     = Inl (External ''ExtractionError'')
   \<and> databases (snd (process_documents (demo_env [''a.pdf'', ''bad.bin'', ''c.txt''])
        ''docs'' ''vdb'' world0)) ''documents.db'' = Some [(1, ''a.pdf#I'')]
   \<and> map sd_id (collections (snd (process_documents (demo_env [''a.pdf'', ''bad.bin'', ''c.txt''])
        ''docs'' ''vdb'' world0)) (''vdb'', ''summary_vectors'')) = [1, 1]
   \<and> log (snd (process_documents (demo_env [''a.pdf'', ''bad.bin'', ''c.txt''])
        ''docs'' ''vdb'' world0))
     = [InfoDocumentAdded 1, InfoSummaryAdded 1, ErrorAddingDocument 1 IntegrityError,
        InfoSummaryAdded 1]"
  by (simp add: demo_defs run_defs)

text \<open>
  C3 (as the code has it). \<open>process_documents\<close> closes the connection it opened exactly
  when it returns normally; when an exception leaves it, the connection on
  \<open>documents.db\<close> is still open.
\<close>

theorem connection_closed_on_normal_return:
  "open_conns (snd (process_documents env folder_path vector_db_path w)) =
     (case fst (process_documents env folder_path vector_db_path w) of
        Inr u \<Rightarrow> open_conns w
      | Inl e \<Rightarrow> default_db_name # open_conns w)"
  by (simp add: process_documents_eq close_conn_def fold_open_conns start_state
      split: sum.split)

theorem close_on_all_paths_counterexample:
  "fst (process_documents (demo_env [''bad.bin'']) ''docs'' ''vdb'' world0)
     = Inl (External ''ExtractionError'')
   \<and> open_conns world0 = []
   \<and> open_conns (snd (process_documents (demo_env [''bad.bin'']) ''docs'' ''vdb'' world0))
     = [''documents.db'']"
  by (simp add: demo_defs run_defs)

text \<open>
  C4 (what the code does). The call of \<open>summary_chain.run\<close> on line 76 stands in no
  \<open>try\<close> block. In the folder \<open>s.txt, c.txt\<close>, where summarizing the first element of
  \<open>s.txt\<close> raises, the run ends with that exception: nothing is logged, and neither the
  second element of \<open>s.txt\<close> nor \<open>c.txt\<close> is processed.
\<close>

theorem summarization_failure_aborts_run:
  "partition_auto (demo_env [''s.txt'', ''c.txt'']) ''docs/s.txt'' = Inr [seg_boom, seg_c]
   \<and> summary_chain_run (demo_env [''s.txt'', ''c.txt'']) (el_text seg_boom)
     = Inl (External ''SummarizationError'')
   \<and> process_documents (demo_env [''s.txt'', ''c.txt'']) ''docs'' ''vdb'' world0
     = (Inl (External ''SummarizationError''),
        world0\<lparr>databases := (databases world0)(''documents.db'' := Some []),
               open_conns := [''documents.db'']\<rparr>)
   \<and> log world0 = []"
  by (simp add: demo_defs run_defs)

text \<open>
  C8. When the retrieval chain raises, \<open>run_retrieval_chain\<close> hands the same exception to
  its caller, and no query result is logged.
\<close>

theorem retrieval_failure_propagates:
  assumes "retrieval_chain_run env (collections w (Chroma ''summary_vectors'' vector_db_path))
             (databases w default_db_name) query = Inl e"
  shows "fst (run_retrieval_chain env vector_db_path query w) = Inl e
       \<and> log (snd (run_retrieval_chain env vector_db_path query w)) = log w"
  using assms by (simp add: run_retrieval_chain_def connect_db_def)

theorem retrieval_failure_propagates_witness:
  "retrieval_chain_run (demo_env []) (collections world0 (Chroma ''summary_vectors'' ''vdb''))
     (databases world0 default_db_name) ''What is the content of Document 1?''
     = Inl (External ''SearchError'')
   \<and> fst (run_retrieval_chain (demo_env []) ''vdb'' ''What is the content of Document 1?'' world0)
     = Inl (External ''SearchError'')
   \<and> log (snd (run_retrieval_chain (demo_env []) ''vdb''
        ''What is the content of Document 1?'' world0)) = []"
proof -
  have h: "retrieval_chain_run (demo_env [])
      (collections world0 (Chroma ''summary_vectors'' ''vdb''))
      (databases world0 default_db_name) ''What is the content of Document 1?''
      = Inl (External ''SearchError'')"
    by (simp add: demo_env_def world0_def)
  from retrieval_failure_propagates[OF h] show ?thesis using h by (simp add: world0_def)
qed

lemma run_other_db:
  "db \<noteq> default_db_name \<Longrightarrow>
   databases (snd (process_documents env folder_path vector_db_path w)) db = databases w db"
  by (simp add: run_databases)

lemma run_databases_any_store:
  "databases (snd (process_documents env folder_path vector_db_path w))
     = databases (snd (process_documents env folder_path vector_db_path' w))"
  by (simp add: run_databases)

text \<open>
  C10. Both functions connect to \<open>documents.db\<close>, whatever their arguments: a run of
  \<open>process_documents\<close> changes no other database, its effect on the databases is the
  same for every \<open>vector_db_path\<close>, the connection either function leaves open when an
  exception leaves it is one on \<open>documents.db\<close>, and \<open>run_retrieval_chain\<close> hands the
  retrieval chain the table of \<open>documents.db\<close>.
\<close>

theorem record_store_location_fixed:
  assumes "db \<noteq> ''documents.db''"
  shows "fst (connect_db default_db_name w) = ''documents.db''
       \<and> databases (snd (process_documents env folder_path vector_db_path w)) db = databases w db
       \<and> databases (snd (process_documents env folder_path vector_db_path w))
           = databases (snd (process_documents env folder_path vector_db_path' w))
       \<and> open_conns (snd (process_documents env folder_path vector_db_path w))
           = (case fst (process_documents env folder_path vector_db_path w) of
                Inr u \<Rightarrow> open_conns w
              | Inl e \<Rightarrow> ''documents.db'' # open_conns w)
       \<and> fst (run_retrieval_chain env vector_db_path query w)
           = (case retrieval_chain_run env (collections w (vector_db_path, ''summary_vectors''))
                     (databases w ''documents.db'') query of
                Inl e \<Rightarrow> Inl e
              | Inr result \<Rightarrow> Inr ())
       \<and> databases (snd (run_retrieval_chain env vector_db_path query w)) = databases w
       \<and> open_conns (snd (run_retrieval_chain env vector_db_path query w))
           = (case fst (run_retrieval_chain env vector_db_path query w) of
                Inr u \<Rightarrow> open_conns w
              | Inl e \<Rightarrow> ''documents.db'' # open_conns w)"
proof -
  have a: "fst (connect_db default_db_name w) = ''documents.db''"
    by (simp add: connect_db_def default_db_name_def)
  have b: "databases (snd (process_documents env folder_path vector_db_path w)) db
             = databases w db"
    using assms by (simp add: run_other_db default_db_name_def)
  have c: "databases (snd (process_documents env folder_path vector_db_path w))
           = databases (snd (process_documents env folder_path vector_db_path' w))"
    by (rule run_databases_any_store)
  have d: "open_conns (snd (process_documents env folder_path vector_db_path w))
           = (case fst (process_documents env folder_path vector_db_path w) of
                Inr u \<Rightarrow> open_conns w
              | Inl e \<Rightarrow> ''documents.db'' # open_conns w)"
    by (simp add: process_documents_eq close_conn_def fold_open_conns start_state
        default_db_name_def split: sum.split)
  have e: "fst (run_retrieval_chain env vector_db_path query w)
           = (case retrieval_chain_run env (collections w (vector_db_path, ''summary_vectors''))
                     (databases w ''documents.db'') query of
                Inl e \<Rightarrow> Inl e
              | Inr result \<Rightarrow> Inr ())"
    by (simp add: run_retrieval_chain_def connect_db_def default_db_name_def Chroma_def
        split: sum.split)
  have f: "databases (snd (run_retrieval_chain env vector_db_path query w)) = databases w"
    by (simp add: run_retrieval_chain_def connect_db_def close_conn_def split: sum.split)
  have g: "open_conns (snd (run_retrieval_chain env vector_db_path query w))
           = (case fst (run_retrieval_chain env vector_db_path query w) of
                Inr u \<Rightarrow> open_conns w
              | Inl e \<Rightarrow> ''documents.db'' # open_conns w)"
    by (simp add: run_retrieval_chain_def connect_db_def close_conn_def default_db_name_def
        split: sum.split)
  show ?thesis using a b c d e f g by blast
qed

theorem record_store_location_fixed_witness:
  "''vdb'' \<noteq> ''documents.db''
   \<and> databases (snd (process_documents (demo_env [''a.pdf'']) ''docs'' ''vdb'' world0)) ''vdb''
       = None
   \<and> databases (snd (process_documents (demo_env [''a.pdf'']) ''docs'' ''vdb'' world0))
       = databases (snd (process_documents (demo_env [''a.pdf'']) ''docs'' ''documents.db'' world0))
   \<and> databases (snd (process_documents (demo_env [''a.pdf'']) ''docs'' ''vdb'' world0))
       ''documents.db'' = Some [(1, ''a.pdf#I'')]"
proof -
  have h: "''vdb'' \<noteq> ''documents.db''" by simp
  have t: "databases (snd (process_documents (demo_env [''a.pdf'']) ''docs'' ''vdb'' world0))
       ''documents.db'' = Some [(1, ''a.pdf#I'')]"
    by (simp add: demo_defs run_defs)
  have n: "databases world0 ''vdb'' = None" by (simp add: world0_def)
  note r = record_store_location_fixed[OF h, where w = world0 and env = "demo_env [''a.pdf'']"
      and folder_path = "''docs''" and vector_db_path = "''vdb''"
      and vector_db_path' = "''documents.db''" and query = "''q''"]
  from r have "databases (snd (process_documents (demo_env [''a.pdf'']) ''docs'' ''vdb'' world0))
      ''vdb'' = databases world0 ''vdb''"
    by (rule conjunct1[OF conjunct2])
  moreover from r have "databases (snd (process_documents (demo_env [''a.pdf'']) ''docs'' ''vdb''
      world0)) = databases (snd (process_documents (demo_env [''a.pdf'']) ''docs''
      ''documents.db'' world0))"
    by (rule conjunct1[OF conjunct2[OF conjunct2]])
  ultimately show ?thesis using h t n by simp
qed


subsection \<open>The ids of a run\<close>

lemma enumerate_from_eq:
  "enumerate_from i xs = map (\<lambda>k. (i + int k, xs ! k)) [0..<length xs]"
proof (induction xs arbitrary: i)
  case Nil
  show ?case by simp
next
  case (Cons x xs)
  have "[0..<length (x # xs)] = 0 # map Suc [0..<length xs]"
    by (simp add: upt_conv_Cons map_Suc_upt del: upt_Suc)
  then show ?case by (simp add: Cons.IH o_def del: upt_Suc)
qed

lemma enumerate_from_fst: "map fst (enumerate_from i xs) = map (\<lambda>k. i + int k) [0..<length xs]"
  by (simp add: enumerate_from_eq o_def)

lemma enumerate_from_snd: "map snd (enumerate_from i xs) = xs"
  by (induction xs arbitrary: i) simp_all

lemma enumerate_from_ids: "set (map fst (enumerate_from 1 names)) = {1..int (length names)}"
proof -
  have "(\<lambda>k. 1 + int k) ` {0..<length names} = {1..int (length names)}"
  proof (rule set_eqI)
    fix j :: int
    show "j \<in> (\<lambda>k. 1 + int k) ` {0..<length names} \<longleftrightarrow> j \<in> {1..int (length names)}"
    proof
      assume "j \<in> (\<lambda>k. 1 + int k) ` {0..<length names}"
      then show "j \<in> {1..int (length names)}" by auto
    next
      assume j: "j \<in> {1..int (length names)}"
      then have "j = 1 + int (nat (j - 1))" and "nat (j - 1) \<in> {0..<length names}" by auto
      then show "j \<in> (\<lambda>k. 1 + int k) ` {0..<length names}" by (rule image_eqI)
    qed
  qed
  then show ?thesis by (simp add: enumerate_from_fst)
qed

lemma file_steps_ids: "fst ` set (file_steps env folder_path pairs) \<subseteq> fst ` set pairs"
proof (induction pairs)
  case Nil
  show ?case by simp
next
  case (Cons p pairs)
  obtain doc_id filename where p: "p = (doc_id, filename)" by (cases p)
  have a: "fst ` set (element_steps env doc_id filename file_path documents) \<subseteq> {doc_id}"
    for file_path documents
    using element_steps_ids[of env doc_id filename file_path documents] by auto
  show ?case
  proof (cases "partition_auto env (path_join folder_path filename)")
    case (Inl e)
    then show ?thesis by (simp add: p)
  next
    case (Inr documents)
    show ?thesis
      using Inr a[of "path_join folder_path filename" documents] Cons.IH
      by (auto simp: p image_Un split: sum.split)
  qed
qed

lemma summary_entries_ids: "sd_id ` set (summary_entries env xs) \<subseteq> fst ` set xs"
  by (force simp: summary_entries_def)

lemma summary_entries_all:
  "\<forall>d. add_documents_fault env d = None \<Longrightarrow>
   summary_entries env xs = map (\<lambda>(i, md, s). \<lparr>sd_text = s, sd_id = i\<rparr>) xs"
  by (simp add: summary_entries_def)

lemma element_steps_success:
  assumes "\<forall>doc \<in> set documents.
             (\<exists>md. build_metadata filename file_path doc = Inr md)
             \<and> summary_chain_run env (el_text doc) = Inr (summ (el_text doc))"
  shows "element_outcome env filename file_path documents = Inr ()
       \<and> map (\<lambda>(i, md, s). \<lparr>sd_text = s, sd_id = i\<rparr>)
             (element_steps env doc_id filename file_path documents)
           = map (\<lambda>doc. \<lparr>sd_text = summ (el_text doc), sd_id = doc_id\<rparr>) documents"
  using assms by (induction documents) auto

lemma file_steps_success:
  assumes "\<forall>filename \<in> snd ` set pairs.
             partition_auto env (path_join folder_path filename) = Inr (docs_of filename)
             \<and> (\<forall>doc \<in> set (docs_of filename).
                   (\<exists>md. build_metadata filename (path_join folder_path filename) doc = Inr md)
                   \<and> summary_chain_run env (el_text doc) = Inr (summ (el_text doc)))"
  shows "file_outcome env folder_path pairs = Inr ()
       \<and> map (\<lambda>(i, md, s). \<lparr>sd_text = s, sd_id = i\<rparr>) (file_steps env folder_path pairs)
           = concat (map (\<lambda>(i, filename).
                 map (\<lambda>doc. \<lparr>sd_text = summ (el_text doc), sd_id = i\<rparr>) (docs_of filename))
               pairs)"
  using assms
proof (induction pairs)
  case Nil
  show ?case by simp
next
  case (Cons p pairs)
  obtain doc_id filename where p: "p = (doc_id, filename)" by (cases p)
  have part: "partition_auto env (path_join folder_path filename) = Inr (docs_of filename)"
    and docs: "\<forall>doc \<in> set (docs_of filename).
                   (\<exists>md. build_metadata filename (path_join folder_path filename) doc = Inr md)
                   \<and> summary_chain_run env (el_text doc) = Inr (summ (el_text doc))"
    using Cons.prems by (simp_all add: p)
  note el = element_steps_success[OF docs, of doc_id]
  have rest: "file_outcome env folder_path pairs = Inr ()
       \<and> map (\<lambda>(i, md, s). \<lparr>sd_text = s, sd_id = i\<rparr>) (file_steps env folder_path pairs)
           = concat (map (\<lambda>(i, filename).
                 map (\<lambda>doc. \<lparr>sd_text = summ (el_text doc), sd_id = i\<rparr>) (docs_of filename))
               pairs)"
    using Cons.prems by (intro Cons.IH) simp
  show ?case using part el rest by (simp add: p)
qed

lemma txn_step_keys_upper:
  "table_keys (fst (txn_step env opened s x)) \<union> fst ` set (snd (txn_step env opened s x))
     \<subseteq> table_keys (fst s) \<union> fst ` set (snd s) \<union> {fst x}"
proof -
  obtain d p where s: "s = (d, p)" by (cases s)
  obtain doc_id md summary where x: "x = (doc_id, md, summary)" by (cases x)
  show ?thesis by (auto simp: s x table_keys_def split: sum.split option.split)
qed

lemma txn_fold_keys_upper:
  "table_keys (fst (foldl (txn_step env opened) s xs))
      \<union> fst ` set (snd (foldl (txn_step env opened) s xs))
     \<subseteq> table_keys (fst s) \<union> fst ` set (snd s) \<union> fst ` set xs"
proof (induction xs arbitrary: s)
  case Nil
  show ?case by simp
next
  case (Cons x xs)
  let ?s' = "txn_step env opened s x"
  have 1: "table_keys (fst (foldl (txn_step env opened) ?s' xs))
      \<union> fst ` set (snd (foldl (txn_step env opened) ?s' xs))
     \<subseteq> table_keys (fst ?s') \<union> fst ` set (snd ?s') \<union> fst ` set xs"
    by (rule Cons.IH)
  have 2: "table_keys (fst ?s') \<union> fst ` set (snd ?s')
     \<subseteq> table_keys (fst s) \<union> fst ` set (snd s) \<union> {fst x}"
    by (rule txn_step_keys_upper)
  have 3: "fst ` set (x # xs) = insert (fst x) (fst ` set xs)" by simp
  show ?case unfolding foldl_Cons 3 using 1 2 by blast
qed

text \<open>
  C6. Position \<open>k\<close> of the listing gets the id \<open>k + 1\<close>: the ids are pairwise distinct
  and are exactly \<open>1..n\<close> for \<open>n\<close> entries. In every run the entries appended to the
  summary collection and the rows committed to the table carry ids of \<open>1..n\<close> only. In a
  run in which extraction, metadata, summarization and the index succeed, every listed
  file contributes, in listing order, one summary entry per element, all under the id
  of the file, however many elements it yields.
\<close>

theorem ids_assigned_in_listing_order:
  assumes ls: "listdir env folder_path = Inr names"
  shows "enumerate_from 1 names = map (\<lambda>k. (int k + 1, names ! k)) [0..<length names]
       \<and> distinct (map fst (enumerate_from 1 names))
       \<and> set (map fst (enumerate_from 1 names)) = {1..int (length names)}
       \<and> sd_id ` set (drop (length (collections w (Chroma ''summary_vectors'' vector_db_path)))
                       (collections (snd (process_documents env folder_path vector_db_path w))
                          (Chroma ''summary_vectors'' vector_db_path)))
           \<subseteq> {1..int (length names)}
       \<and> keys_of (snd (process_documents env folder_path vector_db_path w)) default_db_name
           \<subseteq> keys_of w default_db_name \<union> {1..int (length names)}
       \<and> ((\<forall>filename \<in> set names.
               partition_auto env (path_join folder_path filename) = Inr (docs_of filename)
               \<and> (\<forall>doc \<in> set (docs_of filename).
                     (\<exists>md. build_metadata filename (path_join folder_path filename) doc = Inr md)
                     \<and> summary_chain_run env (el_text doc) = Inr (summ (el_text doc))))
            \<and> (\<forall>d. add_documents_fault env d = None)
           \<longrightarrow> fst (process_documents env folder_path vector_db_path w) = Inr ()
             \<and> collections (snd (process_documents env folder_path vector_db_path w))
                  (Chroma ''summary_vectors'' vector_db_path)
                = collections w (Chroma ''summary_vectors'' vector_db_path)
                  @ concat (map (\<lambda>(i, filename).
                        map (\<lambda>doc. \<lparr>sd_text = summ (el_text doc), sd_id = i\<rparr>) (docs_of filename))
                      (enumerate_from 1 names)))"
proof -
  let ?pairs = "enumerate_from 1 names"
  have steps: "run_steps env folder_path = file_steps env folder_path ?pairs"
    and outcome: "run_outcome env folder_path = file_outcome env folder_path ?pairs"
    using ls by (simp_all add: run_steps_def run_outcome_def)
  have a: "?pairs = map (\<lambda>k. (int k + 1, names ! k)) [0..<length names]"
    by (simp add: enumerate_from_eq add.commute)
  have b: "distinct (map fst ?pairs)"
    unfolding enumerate_from_fst by (simp add: distinct_map inj_on_def)
  have c: "set (map fst ?pairs) = {1..int (length names)}"
    by (rule enumerate_from_ids)
  have ids: "fst ` set (run_steps env folder_path) \<subseteq> {1..int (length names)}"
    using file_steps_ids[of env folder_path ?pairs] c by (simp add: steps)
  have d: "sd_id ` set (drop (length (collections w (Chroma ''summary_vectors'' vector_db_path)))
                       (collections (snd (process_documents env folder_path vector_db_path w))
                          (Chroma ''summary_vectors'' vector_db_path)))
           \<subseteq> {1..int (length names)}"
    using summary_entries_ids[of env "run_steps env folder_path"] ids
    by (simp add: run_collections)
  have e: "keys_of (snd (process_documents env folder_path vector_db_path w)) default_db_name
           \<subseteq> keys_of w default_db_name \<union> {1..int (length names)}"
  proof -
    let ?s = "(Some (case databases w default_db_name of None \<Rightarrow> [] | Some rows \<Rightarrow> rows), [])
                :: table option \<times> table"
    have 1: "table_keys (fst ?s) = keys_of w default_db_name"
      by (simp add: keys_of_def table_keys_def split: option.split)
    have 2: "keys_of (snd (process_documents env folder_path vector_db_path w)) default_db_name
               = table_keys (fst (foldl (txn_step env True) ?s (run_steps env folder_path)))"
      by (simp add: keys_of_def run_databases)
    have 3: "table_keys (fst (foldl (txn_step env True) ?s (run_steps env folder_path)))
               \<subseteq> table_keys (fst ?s) \<union> fst ` set (run_steps env folder_path)"
      using txn_fold_keys_upper[of env True ?s "run_steps env folder_path"] by simp
    show ?thesis unfolding 2 using 3 ids unfolding 1 by blast
  qed
  have f: "fst (process_documents env folder_path vector_db_path w) = Inr ()
             \<and> collections (snd (process_documents env folder_path vector_db_path w))
                  (Chroma ''summary_vectors'' vector_db_path)
                = collections w (Chroma ''summary_vectors'' vector_db_path)
                  @ concat (map (\<lambda>(i, filename).
                        map (\<lambda>doc. \<lparr>sd_text = summ (el_text doc), sd_id = i\<rparr>) (docs_of filename))
                      ?pairs)"
    if ok: "\<forall>filename \<in> set names.
               partition_auto env (path_join folder_path filename) = Inr (docs_of filename)
               \<and> (\<forall>doc \<in> set (docs_of filename).
                     (\<exists>md. build_metadata filename (path_join folder_path filename) doc = Inr md)
                     \<and> summary_chain_run env (el_text doc) = Inr (summ (el_text doc)))"
      and nofault: "\<forall>d. add_documents_fault env d = None"
  proof -
    have "snd ` set ?pairs = set names"
      using enumerate_from_snd[of 1 names] by (metis set_map)
    with ok have "\<forall>filename \<in> snd ` set ?pairs.
             partition_auto env (path_join folder_path filename) = Inr (docs_of filename)
             \<and> (\<forall>doc \<in> set (docs_of filename).
                   (\<exists>md. build_metadata filename (path_join folder_path filename) doc = Inr md)
                   \<and> summary_chain_run env (el_text doc) = Inr (summ (el_text doc)))"
      by simp
    from file_steps_success[OF this]
    have out: "file_outcome env folder_path ?pairs = Inr ()"
      and ent: "map (\<lambda>(i, md, s). \<lparr>sd_text = s, sd_id = i\<rparr>) (file_steps env folder_path ?pairs)
           = concat (map (\<lambda>(i, filename).
                 map (\<lambda>doc. \<lparr>sd_text = summ (el_text doc), sd_id = i\<rparr>) (docs_of filename))
               ?pairs)"
      by blast+
    have "fst (process_documents env folder_path vector_db_path w) = Inr ()"
      by (simp add: process_documents_eq outcome out)
    moreover have "collections (snd (process_documents env folder_path vector_db_path w))
                  (Chroma ''summary_vectors'' vector_db_path)
                = collections w (Chroma ''summary_vectors'' vector_db_path)
                  @ concat (map (\<lambda>(i, filename).
                        map (\<lambda>doc. \<lparr>sd_text = summ (el_text doc), sd_id = i\<rparr>) (docs_of filename))
                      ?pairs)"
      by (simp add: run_collections summary_entries_all[OF nofault] steps ent)
    ultimately show ?thesis by blast
  qed
  show ?thesis using a b c d e f by blast
qed

theorem ids_assigned_in_listing_order_witness:
  "listdir (demo_env [''a.pdf'', ''c.txt'']) ''docs'' = Inr [''a.pdf'', ''c.txt'']
   \<and> enumerate_from 1 [''a.pdf'', ''c.txt''] = [(1, ''a.pdf''), (2, ''c.txt'')]
   \<and> fst (process_documents (demo_env [''a.pdf'', ''c.txt'']) ''docs'' ''vdb'' world0) = Inr ()
   \<and> collections (snd (process_documents (demo_env [''a.pdf'', ''c.txt'']) ''docs'' ''vdb'' world0))
       (Chroma ''summary_vectors'' ''vdb'')
     = [\<lparr>sd_text = ''alp'', sd_id = 1\<rparr>, \<lparr>sd_text = ''bet'', sd_id = 1\<rparr>,
        \<lparr>sd_text = ''gam'', sd_id = 2\<rparr>]"
proof -
  let ?env = "demo_env [''a.pdf'', ''c.txt'']"
  let ?docs_of = "\<lambda>f. if f = ''a.pdf'' then [seg_p1, seg_p2] else [seg_c]"
  have ls: "listdir ?env ''docs'' = Inr [''a.pdf'', ''c.txt'']" by (simp add: demo_env_def)
  have ok: "(\<forall>filename \<in> set [''a.pdf'', ''c.txt''].
               partition_auto ?env (path_join ''docs'' filename) = Inr (?docs_of filename)
               \<and> (\<forall>doc \<in> set (?docs_of filename).
                     (\<exists>md. build_metadata filename (path_join ''docs'' filename) doc = Inr md)
                     \<and> summary_chain_run ?env (el_text doc) = Inr (take 3 (el_text doc))))
            \<and> (\<forall>d. add_documents_fault ?env d = None)"
    by (simp add: demo_defs path_join_def build_metadata_def dict_get_def)
  have w0: "collections world0 (Chroma ''summary_vectors'' ''vdb'') = []"
    by (simp add: world0_def)
  note r = ids_assigned_in_listing_order[OF ls, where w = world0 and vector_db_path = "''vdb''"
      and docs_of = ?docs_of and summ = "take 3"]
  from r ok have "fst (process_documents ?env ''docs'' ''vdb'' world0) = Inr ()
     \<and> collections (snd (process_documents ?env ''docs'' ''vdb'' world0))
          (Chroma ''summary_vectors'' ''vdb'')
        = collections world0 (Chroma ''summary_vectors'' ''vdb'')
          @ concat (map (\<lambda>(i, filename).
                map (\<lambda>doc. \<lparr>sd_text = take 3 (el_text doc), sd_id = i\<rparr>) (?docs_of filename))
              (enumerate_from 1 [''a.pdf'', ''c.txt'']))"
    by blast
  then show ?thesis using ls w0 by (simp add: demo_defs)
qed

subsection \<open>The metadata dict\<close>

lemma image_paths_all:
  "\<forall>img \<in> set imgs. \<exists>p. map_of img ''path'' = Some p \<Longrightarrow>
   image_paths imgs = Inr (map (\<lambda>img. the (map_of img ''path'')) imgs)"
  by (induction imgs) auto

text \<open>
  C7 (as the code has it). For an element whose \<open>images\<close> value is absent or a list of
  dicts that each hold a \<open>path\<close>, the metadata built for the file \<open>filename\<close> of
  \<open>folder_path\<close> has exactly the keys \<open>filename\<close>, \<open>source\<close>, \<open>pagenumber\<close>,
  \<open>image_count\<close> and \<open>images\<close>: the listed name, the joined path, the value stored under
  the element's \<open>page_number\<close> key (0 only when the key is absent), the number of its
  images (not negative), and the dict from position to image path.
\<close>

theorem metadata_fields:
  assumes imgs: "dict_get (images (el_metadata doc)) (Images []) = Images imgs"
      and paths: "\<forall>img \<in> set imgs. \<exists>p. map_of img ''path'' = Some p"
  shows "build_metadata filename (path_join folder_path filename) doc =
           Inr [(''filename'', PyStr filename),
                (''source'', PyStr (path_join folder_path filename)),
                (''pagenumber'',
                   (case page_number (el_metadata doc) of None \<Rightarrow> PyInt 0 | Some v \<Rightarrow> v)),
                (''image_count'', PyInt (int (length imgs))),
                (''images'', PyDict (map (\<lambda>k. (int k, the (map_of (imgs ! k) ''path'')))
                                       [0..<length imgs]))]
       \<and> 0 \<le> int (length imgs)"
  using imgs image_paths_all[OF paths]
  by (simp add: build_metadata_def enumerate_from_eq dict_get_def[of "page_number (el_metadata doc)"]
      o_def)

theorem metadata_fields_witness:
  "dict_get (images (el_metadata seg_p1)) (Images [])
     = Images [[(''path'', ''i/0.png'')], [(''path'', ''i/1.png'')]]
   \<and> build_metadata ''a.pdf'' (path_join ''docs'' ''a.pdf'') seg_p1 =
       Inr [(''filename'', PyStr ''a.pdf''), (''source'', PyStr ''docs/a.pdf''),
            (''pagenumber'', PyInt 1), (''image_count'', PyInt 2),
            (''images'', PyDict [(0, ''i/0.png''), (1, ''i/1.png'')])]"
proof -
  have h: "dict_get (images (el_metadata seg_p1)) (Images [])
     = Images [[(''path'', ''i/0.png'')], [(''path'', ''i/1.png'')]]"
    by (simp add: seg_p1_def dict_get_def)
  have p: "\<forall>img \<in> set [[(''path'', ''i/0.png'')], [(''path'', ''i/1.png'')]].
             \<exists>p. map_of img ''path'' = Some p"
    by simp
  from metadata_fields[OF h p, of "''a.pdf''" "''docs''"]
  show ?thesis using h by (simp add: seg_p1_def path_join_def upt_rec numeral_2_eq_2)
qed

theorem pagenumber_unknown_counterexample:
  "page_number (el_metadata seg_unknown) = Some PyNone
   \<and> build_metadata ''u.pdf'' (path_join ''docs'' ''u.pdf'') seg_unknown =
       Inr [(''filename'', PyStr ''u.pdf''), (''source'', PyStr ''docs/u.pdf''),
            (''pagenumber'', PyNone), (''image_count'', PyInt 0), (''images'', PyDict [])]
   \<and> PyNone \<noteq> PyInt 0"
  by (simp add: seg_unknown_def build_metadata_def dict_get_def path_join_def)

subsection \<open>Failures of the store writes\<close>




end
